theory Spec2Isabelle
  imports Complex_Main
begin

section \<open>Speaker diarization recipe (recipes/AMI/Diarization/sd.py)\<close>

text \<open>
  The recipe clusters one embedding per sub-segment of a recording (nearest-neighbour
  affinity, spectral embedding, k-means) and turns the labels into speaker boundaries.
  Python floats are idealised as \<^typ>\<open>real\<close>; a numpy matrix is the list of its rows.
  Calls into scikit-learn, scipy and the recipe's helper module \<open>diarization\<close> whose code
  is not part of this file are parameters of the model (the record \<open>libs\<close> below) or are
  modelled from the specification where it fixes their behaviour.
\<close>

subsection \<open>Errors\<close>

text \<open>
  \<open>IndexError\<close> and \<open>ValueError\<close> are the exceptions the statements of
  \<open>do_spec_clustering\<close> raise themselves (indexing the result of \<open>rsplit\<close>, \<open>float\<close>).
  \<open>LibraryError e\<close> is an exception raised inside a library call (\<open>e\<close> names it) and
  propagated unchanged. \<open>ConfigurationError\<close> and \<open>DataError\<close> are the error kinds the
  specification names; no statement of the recipe raises them.
\<close>

datatype error = ConfigurationError | DataError | IndexError | ValueError | LibraryError string

subsection \<open>Sub-segment identifiers\<close>

text \<open>
  \<open>str.rsplit(sep, maxsplit)\<close> for a one-character separator: the string is cut at the
  last \<open>maxsplit\<close> occurrences of the separator, scanning from the right.
\<close>

fun rsplit :: "char \<Rightarrow> nat \<Rightarrow> string \<Rightarrow> string list" where
  "rsplit c 0 s = [s]"
| "rsplit c (Suc n) s =
     (if c \<in> set s
      then rsplit c n (rev (tl (dropWhile (\<lambda>x. x \<noteq> c) (rev s))))
             @ [rev (takeWhile (\<lambda>x. x \<noteq> c) (rev s))]
      else [s])"

text \<open>\<open>str(n)\<close> of a cluster label: its decimal digits.\<close>

definition digit_char :: "nat \<Rightarrow> char" where
  "digit_char d = ''0123456789'' ! d"

fun str_nat :: "nat \<Rightarrow> string" where
  "str_nat n = (if n < 10 then [digit_char n] else str_nat (n div 10) @ [digit_char (n mod 10)])"

declare str_nat.simps [simp del]

subsection \<open>Labels to speaker boundaries\<close>

text \<open>One row \<open>[rec_id, sseg_start, sseg_end, spkr_id]\<close> of the list \<open>lol\<close>.\<close>

record sseg =
  rec_id :: string
  sseg_start :: real
  sseg_end :: real
  spkr_id :: string

text \<open>
  The loop over \<open>range(labels.shape[0])\<close> of \<open>do_spec_clustering\<close>. The variable
  \<open>rec_id\<close> is read when the speaker id is built and assigned afterwards from the
  identifier of the same iteration, so it is threaded through the recursion.
  \<open>to_float\<close> is Python's \<open>float\<close> on a string (\<open>None\<close> where it raises
  \<open>ValueError\<close>). \<open>subseg_ids[i]\<close> raises \<open>IndexError\<close> when there are fewer
  identifiers than labels, and so does \<open>splitted[1]\<close> or \<open>splitted[2]\<close> when the
  identifier has fewer than two underscores; with one underscore \<open>float(splitted[1])\<close>
  is evaluated first.
\<close>

fun label_loop ::
  "(string \<Rightarrow> real option) \<Rightarrow> string \<Rightarrow> nat list \<Rightarrow> string list \<Rightarrow> error + sseg list" where
  "label_loop to_float rec [] ids = Inr []"
| "label_loop to_float rec (l # ls) [] = Inl IndexError"
| "label_loop to_float rec (l # ls) (sub_seg # ids) =
     (let spkr = rec @ ''_'' @ str_nat l in
      case rsplit (CHR ''_'') 2 sub_seg of
        [r, a, b] \<Rightarrow>
          (case to_float a of
             None \<Rightarrow> Inl ValueError
           | Some st \<Rightarrow>
              (case to_float b of
                 None \<Rightarrow> Inl ValueError
               | Some en \<Rightarrow>
                  (case label_loop to_float r ls ids of
                     Inl e \<Rightarrow> Inl e
                   | Inr rest \<Rightarrow>
                       Inr (\<lparr>rec_id = r, sseg_start = st, sseg_end = en, spkr_id = spkr\<rparr> # rest))))
      | [r, a] \<Rightarrow> (case to_float a of None \<Rightarrow> Inl ValueError | Some st \<Rightarrow> Inl IndexError)
      | _ \<Rightarrow> Inl IndexError)"

subsection \<open>Merging and splitting the sub-segments\<close>

text \<open>
  Modelled from the spec: \<open>diar.merge_ssegs_same_speaker\<close> belongs to the helper module
  \<open>diarization\<close>, which is not among the sources. Pass 1 of the specification: scan the
  sorted entries; whenever consecutive entries share the speaker id, merge them into one
  turn spanning \<open>[min(start), max(end)]\<close>.
\<close>

fun merge_ssegs_same_speaker :: "sseg list \<Rightarrow> sseg list" where
  "merge_ssegs_same_speaker [] = []"
| "merge_ssegs_same_speaker [t] = [t]"
| "merge_ssegs_same_speaker (t1 # t2 # ts) =
     (if spkr_id t1 = spkr_id t2
      then merge_ssegs_same_speaker
             (t1\<lparr>sseg_start := min (sseg_start t1) (sseg_start t2),
                 sseg_end := max (sseg_end t1) (sseg_end t2)\<rparr> # ts)
      else t1 # merge_ssegs_same_speaker (t2 # ts))"

text \<open>
  Modelled from the spec: \<open>diar.distribute_overlap\<close> belongs to the same missing module.
  Pass 2 of the specification: for each pair of adjacent turns \<open>T1\<close> ending at \<open>e1\<close> and
  \<open>T2\<close> starting at \<open>s2\<close> with \<open>s2 < e1\<close>, the midpoint \<open>m = (s2 + e1) / 2\<close> becomes
  the end of \<open>T1\<close> and the start of \<open>T2\<close>; other adjacent turns are left untouched.
\<close>

fun distribute_overlap :: "sseg list \<Rightarrow> sseg list" where
  "distribute_overlap [] = []"
| "distribute_overlap [t] = [t]"
| "distribute_overlap (t1 # t2 # ts) =
     (if sseg_start t2 < sseg_end t1
      then (let m = (sseg_start t2 + sseg_end t1) / 2 in
            t1\<lparr>sseg_end := m\<rparr> # distribute_overlap (t2\<lparr>sseg_start := m\<rparr> # ts))
      else t1 # distribute_overlap (t2 # ts))"

text \<open>
  The tail of \<open>do_spec_clustering\<close> after the loop: \<open>lol.sort(key=lambda x: float(x[1]))\<close>
  (Python's sort is stable, as \<^const>\<open>sort_key\<close> is), then the two passes.
\<close>

definition reconcile :: "sseg list \<Rightarrow> sseg list" where
  "reconcile lol = distribute_overlap (merge_ssegs_same_speaker (sort_key sseg_start lol))"

text \<open>The time intervals of two turns do not overlap.\<close>

definition disjoint_turns :: "sseg \<Rightarrow> sseg \<Rightarrow> bool" where
  "disjoint_turns A B = (sseg_end A \<le> sseg_start B \<or> sseg_end B \<le> sseg_start A)"

subsection \<open>Matrices and Python slices\<close>

type_synonym vec = "real list"
type_synonym matrix = "real list list"

text \<open>
  \<open>M.T\<close>: a numpy array knows its shape; the list of rows does not know its number of
  columns when there is no row, so the transposition takes the number of columns.
\<close>

definition ncols :: "matrix \<Rightarrow> nat" where
  "ncols M = (case M of [] \<Rightarrow> 0 | r # _ \<Rightarrow> length r)"

definition mat_T :: "nat \<Rightarrow> matrix \<Rightarrow> matrix" where
  "mat_T c M = map (\<lambda>j. map (\<lambda>r. r ! j) M) [0..<c]"

text \<open>\<open>xs[start::-1]\<close>: from index \<open>start\<close> (clamped to the last index) down to index 0.\<close>

definition py_slice_from_rev :: "int \<Rightarrow> 'a list \<Rightarrow> 'a list" where
  "py_slice_from_rev start xs =
     (let m = int (length xs);
          s = (if start < 0 then start + m else min start (m - 1))
      in if s < 0 then [] else rev (take (nat s + 1) xs))"

text \<open>\<open>xs[lo:hi]\<close>: a negative bound counts from the end, and both are clamped.\<close>

definition py_bound :: "int \<Rightarrow> nat \<Rightarrow> nat" where
  "py_bound i m = (if i < 0 then nat (max (i + int m) 0) else min (nat i) m)"

definition py_slice :: "int \<Rightarrow> int \<Rightarrow> 'a list \<Rightarrow> 'a list" where
  "py_slice lo hi xs = drop (py_bound lo (length xs)) (take (py_bound hi (length xs)) xs)"

subsection \<open>The library calls\<close>

text \<open>
  The functions the recipe calls and does not define. A call returns \<open>Inl e\<close> when it
  raises the exception \<open>e\<close>.
  \<^item> \<open>kneighbors_graph X n_neighbors include_self\<close> (scikit-learn): the directed
    nearest-neighbour connectivity matrix of the rows of \<open>X\<close>.
  \<^item> \<open>csgraph_laplacian adjacency normed\<close> (scipy, with \<open>return_diag=True\<close>): the
    Laplacian and the diagonal vector \<open>dd\<close>.
  \<^item> \<open>set_diag laplacian value norm_laplacian\<close> and \<open>graph_is_connected adjacency\<close>
    (the helper module \<open>diarization\<close>).
  \<^item> \<open>eigsh laplacian k\<close> (scipy, with \<open>sigma=1.0, which="LM"\<close>): the eigenvalues and
    the matrix whose columns are the eigenvectors.
  \<^item> \<open>k_means maps n_clusters generator n_init\<close> (scikit-learn): the labels, and the
    generator as the call leaves it, since drawing random numbers advances it.
  \<^item> \<open>seed_generator seed\<close>: \<open>np.random.RandomState(seed)\<close>.
\<close>

record 'g libs =
  kneighbors_graph :: "matrix \<Rightarrow> int \<Rightarrow> bool \<Rightarrow> string + matrix"
  csgraph_laplacian :: "matrix \<Rightarrow> bool \<Rightarrow> string + (matrix \<times> vec)"
  set_diag :: "matrix \<Rightarrow> real \<Rightarrow> bool \<Rightarrow> matrix"
  graph_is_connected :: "matrix \<Rightarrow> bool"
  eigsh :: "matrix \<Rightarrow> int \<Rightarrow> string + (vec \<times> matrix)"
  k_means :: "matrix \<Rightarrow> int \<Rightarrow> 'g \<Rightarrow> nat \<Rightarrow> (string + nat list) \<times> 'g"
  seed_generator :: "int \<Rightarrow> 'g"

subsection \<open>Spectral embedding\<close>

text \<open>
  Modelled from the spec: \<open>diar.deterministic_vector_sign_flip\<close> is in the missing helper
  module. The specification: the sign of each eigenvector is fixed by inspecting its
  largest-magnitude entry and forcing it positive. Of several entries of the same
  magnitude the first one is inspected.
\<close>

fun largest_magnitude :: "vec \<Rightarrow> real" where
  "largest_magnitude [] = 0"
| "largest_magnitude (x # xs) =
     (let y = largest_magnitude xs in if \<bar>x\<bar> < \<bar>y\<bar> then y else x)"

definition sign_flip_row :: "vec \<Rightarrow> vec" where
  "sign_flip_row v = (if largest_magnitude v < 0 then map uminus v else v)"

definition deterministic_vector_sign_flip :: "matrix \<Rightarrow> matrix" where
  "deterministic_vector_sign_flip u = map sign_flip_row u"

text \<open>
  \<open>embedding / dd\<close>: every row of the embedding divided entry by entry by \<open>dd\<close>.
  numpy refuses operands of different lengths; the statements below assume that \<open>dd\<close>
  has one entry per node, as the diagonal of the Laplacian has.
\<close>

definition divide_rows :: "matrix \<Rightarrow> vec \<Rightarrow> matrix" where
  "divide_rows embedding dd = map (\<lambda>row. map2 (/) row dd) embedding"

definition not_connected_warning :: string where
  "not_connected_warning =
     ''Graph is not fully connected, spectral embedding may not work as expected.''"

text \<open>
  \<open>spectral_embedding_sb\<close> returns the warnings it emitted and its result.
  \<open>warnings.warn\<close> records the message and the function goes on.
\<close>

definition spectral_embedding_sb ::
  "'g libs \<Rightarrow> matrix \<Rightarrow> int \<Rightarrow> bool \<Rightarrow> bool \<Rightarrow> string list \<times> (error + matrix)" where
  "spectral_embedding_sb L adjacency n_components0 norm_laplacian drop_first =
     (let n_components = (if drop_first then n_components0 + 1 else n_components0);
          warned = (if \<not> graph_is_connected L adjacency then [not_connected_warning] else [])
      in (warned,
          case csgraph_laplacian L adjacency norm_laplacian of
            Inl e \<Rightarrow> Inl (LibraryError e)
          | Inr (laplacian0, dd) \<Rightarrow>
             (let laplacian1 = set_diag L laplacian0 1 norm_laplacian;
                  laplacian = map (map (\<lambda>x. x * (- 1))) laplacian1
              in case eigsh L laplacian n_components of
                   Inl e \<Rightarrow> Inl (LibraryError e)
                 | Inr (vals, diffusion_map) \<Rightarrow>
                    (let embedding0 =
                           py_slice_from_rev n_components
                             (mat_T (ncols diffusion_map) diffusion_map);
                         embedding1 =
                           (if norm_laplacian then divide_rows embedding0 dd else embedding0);
                         embedding = deterministic_vector_sign_flip embedding1
                     in Inr (mat_T (length diffusion_map)
                               (if drop_first then py_slice 1 n_components embedding
                                else py_slice 0 n_components embedding))))))"

subsection \<open>Spectral clustering\<close>

text \<open>
  \<open>spectral_clustering_sb\<close> with its keywords \<open>random_state\<close> and \<open>n_init\<close>; the
  keywords the body never reads are left out, and \<open>n_components\<close> is \<open>None\<close> in the
  only call. The function returns the warnings, its result and the generator of the
  process.

  Modelled from the spec: \<open>diar.check_random_state\<close> is in the missing helper module.
  The specification (4.3, 9): the assignment is deterministic given a fixed seed, and
  otherwise the seeding is process-wide ambient state. So for an integer seed \<open>k_means\<close>
  draws from a generator of its own, and for \<open>None\<close> from the generator of the process
  (seeded once by \<open>np.random.seed(1234)\<close> when the module is loaded), which the call
  leaves advanced.
\<close>

definition spectral_clustering_sb ::
  "'g libs \<Rightarrow> matrix \<Rightarrow> int \<Rightarrow> int option \<Rightarrow> nat \<Rightarrow> 'g
     \<Rightarrow> string list \<times> (error + nat list) \<times> 'g" where
  "spectral_clustering_sb L aff n_clusters0 random_state0 n_init g =
     (let n_components = n_clusters0;
          (warned, maps) = spectral_embedding_sb L aff n_components True False
      in case maps of
           Inl e \<Rightarrow> (warned, Inl e, g)
         | Inr m \<Rightarrow>
            (case random_state0 of
               None \<Rightarrow>
                 (let (r, g') = k_means L m n_clusters0 g n_init
                  in (warned, (case r of Inl e \<Rightarrow> Inl (LibraryError e) | Inr labels \<Rightarrow> Inr labels), g'))
             | Some s \<Rightarrow>
                 (let (r, _) = k_means L m n_clusters0 (seed_generator L s) n_init
                  in (warned, (case r of Inl e \<Rightarrow> Inl (LibraryError e) | Inr labels \<Rightarrow> Inr labels), g))))"

text \<open>The hyperparameters the recipe reads from \<open>params\<close>.\<close>

record params =
  seed :: int
  n_neighbors :: int
  include_self :: bool

text \<open>The fields of a \<open>Spec_Cluster\<close> object that its constructor call sets.\<close>

record spec_cluster =
  n_clusters :: int
  assign_labels :: string
  random_state :: "int option"
  affinity :: string

text \<open>\<open>0.5 * (connectivity + connectivity.T)\<close>\<close>

definition affinity_matrix :: "matrix \<Rightarrow> matrix" where
  "affinity_matrix connectivity =
     map (map (\<lambda>x. 0.5 * x))
       (map2 (map2 (+)) connectivity (mat_T (ncols connectivity) connectivity))"

text \<open>
  \<open>Spec_Cluster.perform_sc\<close>: the result holds the two attributes the method sets,
  \<open>affinity_matrix_\<close> and \<open>labels_\<close>. The call of \<open>spectral_clustering_sb\<close> passes
  \<open>n_clusters\<close> and \<open>assign_labels\<close> only, so \<open>random_state\<close> and \<open>n_init\<close> have
  their defaults \<open>None\<close> and 10.
\<close>

definition perform_sc ::
  "'g libs \<Rightarrow> params \<Rightarrow> spec_cluster \<Rightarrow> matrix \<Rightarrow> 'g
     \<Rightarrow> string list \<times> (error + matrix \<times> nat list) \<times> 'g" where
  "perform_sc L P self X g =
     (case kneighbors_graph L X (n_neighbors P) (include_self P) of
        Inl e \<Rightarrow> ([], Inl (LibraryError e), g)
      | Inr connectivity \<Rightarrow>
         (let affinity_mat = affinity_matrix connectivity;
              (warned, r, g') = spectral_clustering_sb L affinity_mat (n_clusters self) None 10 g
          in (warned,
              (case r of Inl e \<Rightarrow> Inl e | Inr labels \<Rightarrow> Inr (affinity_mat, labels)),
              g')))"

text \<open>The embeddings object of one recording: \<open>stat1\<close> and \<open>segset\<close>.\<close>

record diary_obj =
  stat1 :: matrix
  segset :: "string list"

text \<open>
  \<open>do_spec_clustering\<close>: the result is the list \<open>lol\<close> handed to \<open>diar.write_rttm\<close>.
\<close>

definition do_spec_clustering ::
  "'g libs \<Rightarrow> params \<Rightarrow> (string \<Rightarrow> real option) \<Rightarrow> diary_obj \<Rightarrow> string \<Rightarrow> int \<Rightarrow> 'g
     \<Rightarrow> string list \<times> (error + sseg list) \<times> 'g" where
  "do_spec_clustering L P to_float diary_obj_eval rec k g =
     (let clust_obj = \<lparr>n_clusters = k, assign_labels = ''kmeans'',
                       random_state = Some (seed P), affinity = ''nearest_neighbors''\<rparr>;
          (warned, r, g') = perform_sc L P clust_obj (stat1 diary_obj_eval) g
      in case r of
           Inl e \<Rightarrow> (warned, Inl e, g')
         | Inr (_, labels) \<Rightarrow>
            (case label_loop to_float rec labels (segset diary_obj_eval) of
               Inl e \<Rightarrow> (warned, Inl e, g')
             | Inr lol \<Rightarrow> (warned, Inr (reconcile lol), g')))"

subsection \<open>Notions used in the statements\<close>

text \<open>A matrix with as many columns as rows.\<close>

definition square :: "matrix \<Rightarrow> bool" where
  "square M = (\<forall>row \<in> set M. length row = length M)"

text \<open>
  Sub-segments in the order of their start times whose end times do not decrease either,
  none of them inverted: no sub-segment outlasts one that starts later.
\<close>

definition in_order :: "sseg \<Rightarrow> sseg \<Rightarrow> bool" where
  "in_order a b = (sseg_start a \<le> sseg_start b \<and> sseg_end a \<le> sseg_end b)"

definition well_nested :: "sseg list \<Rightarrow> bool" where
  "well_nested xs = (successively in_order xs \<and> list_all (\<lambda>t. sseg_start t \<le> sseg_end t) xs)"

text \<open>
  Column \<open>c\<close> of \<open>diffusion_map\<close>, the \<open>c\<close>-th eigenvector \<open>eigsh\<close> returned, and
  what \<open>embedding / dd\<close> makes of a vector when the Laplacian is normalised.
\<close>

definition eigvec_col :: "matrix \<Rightarrow> nat \<Rightarrow> vec" where
  "eigvec_col diffusion_map c = map (\<lambda>row. row ! c) diffusion_map"

definition scaled :: "bool \<Rightarrow> vec \<Rightarrow> vec \<Rightarrow> vec" where
  "scaled norm_laplacian dd v = (if norm_laplacian then map2 (/) v dd else v)"

subsection \<open>A small environment\<close>

text \<open>
  Library answers for one recording of three sub-segments whose embeddings are the
  points 0, 1 and 3, used to evaluate the definitions on concrete inputs.
  \<^item> \<open>kneighbors_graph\<close> raises \<open>ValueError\<close> for \<open>n_neighbors \<le> 0\<close>, as scikit-learn
    does, and otherwise returns the graph of the nearest neighbour of each point.
  \<^item> \<open>eigsh\<close> raises \<open>ValueError\<close> for \<open>k \<le> 0\<close> and \<open>TypeError\<close> for \<open>k \<ge> N\<close>, as scipy
    does on the sparse matrix the recipe hands it, and otherwise returns \<open>k\<close> columns.
  \<^item> \<open>k_means\<close> raises \<open>ValueError\<close> for more clusters than samples, as scikit-learn
    does, and otherwise puts the points 0 and 1 into one cluster and the point 3 into the
    other. The generator is a counter that \<open>k_means\<close> advances; which of the two clusters
    gets the label 0 depends on the parity of the counter.
  \<^item> The entries of the Laplacian, of \<open>dd\<close> and of the eigenvectors are rational numbers
    standing for the floating-point values of the libraries.
\<close>

definition demo_libs :: "nat libs" where
  "demo_libs =
     \<lparr>kneighbors_graph =
        (\<lambda>X n inc. if n \<le> 0 then Inl ''ValueError'' else Inr [[0, 1, 0], [1, 0, 0], [0, 1, 0]]),
      csgraph_laplacian =
        (\<lambda>A normed. Inr ([[1, - 1, 0], [- 1, 1, - 1 / 2], [0, - 1 / 2, 1]], [1, 2, 4])),
      set_diag = (\<lambda>M v normed. M),
      graph_is_connected = (\<lambda>A. True),
      eigsh =
        (\<lambda>M k. if k \<le> 0 then Inl ''ValueError''
               else if int (length M) \<le> k then Inl ''TypeError''
               else Inr (take (nat k) [0, 1, 2],
                         map (take (nat k)) [[1, - 6, 2], [2, 3, - 1], [- 4, 1, 5]])),
      k_means =
        (\<lambda>M k g n_init.
           if int (length M) < k then (Inl ''ValueError'', g)
           else (Inr (if even g then [0, 0, 1] else [1, 1, 0]), Suc g)),
      seed_generator = (\<lambda>s. nat s)\<rparr>"

definition demo_float :: "string \<Rightarrow> real option" where
  "demo_float = map_of [(''0.0'', 0), (''1.0'', 1), (''2.0'', 2), (''3.0'', 3),
                        (''4.0'', 4), (''10.0'', 10)]"

definition demo_params :: params where
  "demo_params = \<lparr>seed = 1234, n_neighbors = 1, include_self = False\<rparr>"

definition demo_obj :: diary_obj where
  "demo_obj = \<lparr>stat1 = [[0], [1], [3]],
                segset = [''ES2011a_0.0_2.0'', ''ES2011a_1.0_3.0'', ''ES2011a_3.0_4.0'']\<rparr>"

section \<open>Properties\<close>

subsection \<open>The label loop\<close>

lemma rsplit_numeral: "rsplit c (numeral k) s = rsplit c (Suc (pred_numeral k)) s"
  by (simp add: numeral_eq_Suc)

lemma label_loop_length:
  "label_loop f r ls ids = Inr lol \<Longrightarrow> length lol = length ls"
  by (induction f r ls ids arbitrary: lol rule: label_loop.induct)
     (auto split: list.splits option.splits sum.splits)

lemma label_loop_Cons:
  "label_loop f r (l # ls) ids = Inr lol \<Longrightarrow>
   \<exists>s ss a b st en rest. ids = s # ss \<and> rsplit (CHR ''_'') 2 s = [hd (rsplit (CHR ''_'') 2 s), a, b]
     \<and> f a = Some st \<and> f b = Some en
     \<and> label_loop f (hd (rsplit (CHR ''_'') 2 s)) ls ss = Inr rest
     \<and> lol = \<lparr>rec_id = hd (rsplit (CHR ''_'') 2 s), sseg_start = st, sseg_end = en,
              spkr_id = r @ ''_'' @ str_nat l\<rparr> # rest"
  by (cases ids) (auto split: list.splits option.splits sum.splits)

lemma label_loop_nth:
  "label_loop f r ls ids = Inr lol \<Longrightarrow> i < length ls \<Longrightarrow>
   spkr_id (lol ! i) =
     (if i = 0 then r else hd (rsplit (CHR ''_'') 2 (ids ! (i - 1)))) @ ''_'' @ str_nat (ls ! i)
   \<and> rec_id (lol ! i) = hd (rsplit (CHR ''_'') 2 (ids ! i))"
proof (induction ls arbitrary: r ids lol i)
  case Nil
  then show ?case by simp
next
  case (Cons l ls)
  from label_loop_Cons[OF Cons.prems(1)] obtain s ss a b st en rest where
    ids: "ids = s # ss" and
    rest: "label_loop f (hd (rsplit (CHR ''_'') 2 s)) ls ss = Inr rest" and
    lol: "lol = \<lparr>rec_id = hd (rsplit (CHR ''_'') 2 s), sseg_start = st, sseg_end = en,
              spkr_id = r @ ''_'' @ str_nat l\<rparr> # rest"
    by blast
  show ?case
  proof (cases i)
    case 0
    then show ?thesis using ids lol by simp
  next
    case (Suc j)
    then have j: "j < length ls" using Cons.prems(2) by simp
    from Cons.IH[OF rest j] show ?thesis using Suc ids lol by (cases j) auto
  qed
qed

text \<open>
  C10. In the label-to-boundary loop the recording id is assigned on every iteration
  from \<open>rsplit("_", 2)\<close> of that iteration's sub-segment identifier, after the speaker id
  has been built. So the speaker id of the first entry is prefixed with the recording id
  the caller supplied, and the speaker id of every later entry \<open>i\<close> with the recording
  id parsed from identifier \<open>i - 1\<close>.
\<close>

theorem label_loop_speaker_prefix:
  assumes "label_loop to_float rec labels subseg_ids = Inr lol"
  shows "length lol = length labels \<and>
         (\<forall>i < length labels.
            rec_id (lol ! i) = hd (rsplit (CHR ''_'') 2 (subseg_ids ! i)) \<and>
            spkr_id (lol ! i) =
              (if i = 0 then rec else hd (rsplit (CHR ''_'') 2 (subseg_ids ! (i - 1))))
                @ ''_'' @ str_nat (labels ! i))"
  using assms label_loop_length[OF assms] label_loop_nth[OF assms] by simp

lemma label_loop_demo:
  "label_loop demo_float ''ES2011a'' [1, 0] [''IS1000a_0.0_2.0'', ''TS3003b_1.0_3.0''] =
     Inr [\<lparr>rec_id = ''IS1000a'', sseg_start = 0, sseg_end = 2, spkr_id = ''ES2011a_1''\<rparr>,
          \<lparr>rec_id = ''TS3003b'', sseg_start = 1, sseg_end = 3, spkr_id = ''IS1000a_0''\<rparr>]"
  by code_simp

theorem label_loop_speaker_prefix_witness:
  "label_loop demo_float ''ES2011a'' [1, 0] [''IS1000a_0.0_2.0'', ''TS3003b_1.0_3.0''] =
     Inr [\<lparr>rec_id = ''IS1000a'', sseg_start = 0, sseg_end = 2, spkr_id = ''ES2011a_1''\<rparr>,
          \<lparr>rec_id = ''TS3003b'', sseg_start = 1, sseg_end = 3, spkr_id = ''IS1000a_0''\<rparr>]
   \<and> spkr_id ([\<lparr>rec_id = ''IS1000a'', sseg_start = 0, sseg_end = 2, spkr_id = ''ES2011a_1''\<rparr>,
          \<lparr>rec_id = ''TS3003b'', sseg_start = 1, sseg_end = 3, spkr_id = ''IS1000a_0''\<rparr>] ! 1)
       = hd (rsplit (CHR ''_'') 2 ''IS1000a_0.0_2.0'') @ ''_'' @ str_nat 0"
proof -
  note h = label_loop_demo
  from label_loop_speaker_prefix[OF h] show ?thesis using h by (simp add: str_nat.simps digit_char_def numeral_2_eq_2)
qed

subsection \<open>The two passes over the sub-segments\<close>

lemma distribute_overlap_length: "length (distribute_overlap xs) = length xs"
  by (induction xs rule: distribute_overlap.induct) (auto simp: Let_def)

lemma distribute_overlap_hd_start:
  "xs \<noteq> [] \<Longrightarrow> sseg_start (hd (distribute_overlap xs)) = sseg_start (hd xs)"
  by (induction xs rule: distribute_overlap.induct) (auto simp: Let_def)

lemma distribute_overlap_nonempty: "xs \<noteq> [] \<Longrightarrow> distribute_overlap xs \<noteq> []"
  by (induction xs rule: distribute_overlap.induct) (auto simp: Let_def)

lemma distribute_overlap_end:
  "Suc i < length xs \<Longrightarrow>
   sseg_end (distribute_overlap xs ! i) =
     (if sseg_start (xs ! Suc i) < sseg_end (xs ! i)
      then (sseg_start (xs ! Suc i) + sseg_end (xs ! i)) / 2 else sseg_end (xs ! i))"
proof (induction xs arbitrary: i rule: distribute_overlap.induct)
  case (3 t1 t2 ts)
  show ?case
  proof (cases i)
    case 0
    then show ?thesis by (simp add: Let_def)
  next
    case (Suc j)
    with "3.prems" have j: "Suc j < length (t2 # ts)" by simp
    show ?thesis
    proof (cases "sseg_start t2 < sseg_end t1")
      case True
      from "3.IH"(1)[OF True refl, of j] j Suc True show ?thesis
        by (cases j) (simp_all add: Let_def)
    next
      case False
      from "3.IH"(2)[OF False, of j] j Suc False show ?thesis by simp
    qed
  qed
qed simp_all

lemma distribute_overlap_start:
  "Suc i < length xs \<Longrightarrow>
   sseg_start (distribute_overlap xs ! Suc i) =
     (if sseg_start (xs ! Suc i) < sseg_end (xs ! i)
      then (sseg_start (xs ! Suc i) + sseg_end (xs ! i)) / 2 else sseg_start (xs ! Suc i))"
proof (induction xs arbitrary: i rule: distribute_overlap.induct)
  case (3 t1 t2 ts)
  show ?case
  proof (cases i)
    case 0
    have "sseg_start (hd (distribute_overlap (t2\<lparr>sseg_start := m\<rparr> # ts))) = m" for m
      using distribute_overlap_hd_start[of "t2\<lparr>sseg_start := m\<rparr> # ts"] by simp
    moreover have "sseg_start (hd (distribute_overlap (t2 # ts))) = sseg_start t2"
      using distribute_overlap_hd_start[of "t2 # ts"] by simp
    moreover have "distribute_overlap (t2' # ts) ! 0 = hd (distribute_overlap (t2' # ts))" for t2'
      using distribute_overlap_nonempty[of "t2' # ts"] by (simp add: hd_conv_nth)
    ultimately show ?thesis using 0 by (simp add: Let_def)
  next
    case (Suc j)
    with "3.prems" have j: "Suc j < length (t2 # ts)" by simp
    show ?thesis
    proof (cases "sseg_start t2 < sseg_end t1")
      case True
      from "3.IH"(1)[OF True refl, of j] j Suc True show ?thesis
        by (cases j) (simp_all add: Let_def)
    next
      case False
      from "3.IH"(2)[OF False, of j] j Suc False show ?thesis by simp
    qed
  qed
qed simp_all

lemma distribute_overlap_ids:
  "i < length xs \<Longrightarrow>
   spkr_id (distribute_overlap xs ! i) = spkr_id (xs ! i) \<and>
   rec_id (distribute_overlap xs ! i) = rec_id (xs ! i)"
proof (induction xs arbitrary: i rule: distribute_overlap.induct)
  case (3 t1 t2 ts)
  show ?case
  proof (cases i)
    case 0
    then show ?thesis by (simp add: Let_def)
  next
    case (Suc j)
    with "3.prems" have j: "j < length (t2 # ts)" by simp
    show ?thesis
    proof (cases "sseg_start t2 < sseg_end t1")
      case True
      from "3.IH"(1)[OF True refl, of j] j Suc True show ?thesis
        by (cases j) (simp_all add: Let_def)
    next
      case False
      from "3.IH"(2)[OF False, of j] j Suc False show ?thesis by simp
    qed
  qed
qed simp_all

lemma distribute_overlap_chain:
  "successively (\<lambda>a b. sseg_end a \<le> sseg_start b) (distribute_overlap xs)"
proof (induction xs rule: distribute_overlap.induct)
  case (3 t1 t2 ts)
  have ne: "distribute_overlap (t2' # ts) \<noteq> []" for t2'
    using distribute_overlap_nonempty[of "t2' # ts"] by simp
  have hd: "sseg_start (hd (distribute_overlap (t2' # ts))) = sseg_start t2'" for t2'
    using distribute_overlap_hd_start[of "t2' # ts"] by simp
  show ?case
  proof (cases "sseg_start t2 < sseg_end t1")
    case True
    with "3.IH"(1)[OF True refl] show ?thesis
      by (simp add: Let_def successively_Cons ne hd)
  next
    case False
    with "3.IH"(2)[OF False] show ?thesis
      by (simp add: successively_Cons ne hd)
  qed
qed simp_all

lemma chain_reaches:
  "successively (\<lambda>a b. sseg_end a \<le> sseg_start b) (x # xs) \<Longrightarrow>
   \<forall>t\<in>set xs. sseg_start t \<le> sseg_end t \<Longrightarrow> y \<in> set xs \<Longrightarrow> sseg_end x \<le> sseg_start y"
proof (induction xs arbitrary: x)
  case Nil
  then show ?case by simp
next
  case (Cons z zs)
  show ?case
  proof (cases "y = z")
    case True
    with Cons.prems(1) show ?thesis by simp
  next
    case False
    with Cons.prems(3) have y: "y \<in> set zs" by simp
    from Cons.prems(1) have xz: "sseg_end x \<le> sseg_start z" and
      ch: "successively (\<lambda>a b. sseg_end a \<le> sseg_start b) (z # zs)" by simp_all
    from Cons.prems(2) have zz: "sseg_start z \<le> sseg_end z" and
      rest: "\<forall>t\<in>set zs. sseg_start t \<le> sseg_end t" by simp_all
    from Cons.IH[OF ch rest y] have "sseg_end z \<le> sseg_start y" .
    with xz zz show ?thesis by linarith
  qed
qed

lemma chain_sorted_wrt:
  "successively (\<lambda>a b. sseg_end a \<le> sseg_start b) xs \<Longrightarrow>
   \<forall>t\<in>set xs. sseg_start t \<le> sseg_end t \<Longrightarrow>
   sorted_wrt (\<lambda>a b. sseg_end a \<le> sseg_start b) xs"
proof (induction xs)
  case Nil
  then show ?case by simp
next
  case (Cons x xs)
  from Cons.prems(1) have ch: "successively (\<lambda>a b. sseg_end a \<le> sseg_start b) xs"
    by (cases xs) simp_all
  from Cons.prems(2) have rest: "\<forall>t\<in>set xs. sseg_start t \<le> sseg_end t" by simp
  from chain_reaches[OF Cons.prems(1) rest] Cons.IH[OF ch rest]
  show ?case by auto
qed

text \<open>
  C3. Overlap resolution, for any two adjacent turns of its input, the first ending at
  \<open>e1\<close> and the second starting at \<open>s2\<close>: when \<open>s2 < e1\<close> the end of the first and the
  start of the second both become the midpoint \<open>(s2 + e1) / 2\<close>; otherwise that end and
  that start are left as they are. The speakers are never changed. In particular the
  entries \<open>(spkrA, 0.0, 2.0)\<close> and \<open>(spkrB, 1.0, 3.0)\<close> are reconciled to
  \<open>(spkrA, 0.0, 1.5)\<close> and \<open>(spkrB, 1.5, 3.0)\<close>.
\<close>

theorem distribute_overlap_midpoint:
  assumes "Suc i < length turns"
  shows "length (distribute_overlap turns) = length turns \<and>
         spkr_id (distribute_overlap turns ! i) = spkr_id (turns ! i) \<and>
         spkr_id (distribute_overlap turns ! Suc i) = spkr_id (turns ! Suc i) \<and>
         (if sseg_start (turns ! Suc i) < sseg_end (turns ! i)
          then sseg_end (distribute_overlap turns ! i)
                 = (sseg_start (turns ! Suc i) + sseg_end (turns ! i)) / 2 \<and>
               sseg_start (distribute_overlap turns ! Suc i)
                 = (sseg_start (turns ! Suc i) + sseg_end (turns ! i)) / 2
          else sseg_end (distribute_overlap turns ! i) = sseg_end (turns ! i) \<and>
               sseg_start (distribute_overlap turns ! Suc i) = sseg_start (turns ! Suc i)) \<and>
         reconcile [\<lparr>rec_id = ''rec'', sseg_start = 0.0, sseg_end = 2.0, spkr_id = ''spkrA''\<rparr>,
                    \<lparr>rec_id = ''rec'', sseg_start = 1.0, sseg_end = 3.0, spkr_id = ''spkrB''\<rparr>]
           = [\<lparr>rec_id = ''rec'', sseg_start = 0.0, sseg_end = 1.5, spkr_id = ''spkrA''\<rparr>,
              \<lparr>rec_id = ''rec'', sseg_start = 1.5, sseg_end = 3.0, spkr_id = ''spkrB''\<rparr>]"
proof -
  from assms have i: "i < length turns" by simp
  have ex: "reconcile [\<lparr>rec_id = ''rec'', sseg_start = 0.0, sseg_end = 2.0, spkr_id = ''spkrA''\<rparr>,
                    \<lparr>rec_id = ''rec'', sseg_start = 1.0, sseg_end = 3.0, spkr_id = ''spkrB''\<rparr>]
           = [\<lparr>rec_id = ''rec'', sseg_start = 0.0, sseg_end = 1.5, spkr_id = ''spkrA''\<rparr>,
              \<lparr>rec_id = ''rec'', sseg_start = 1.5, sseg_end = 3.0, spkr_id = ''spkrB''\<rparr>]"
    by (simp add: reconcile_def Let_def)
  show ?thesis
    using distribute_overlap_length[of turns] distribute_overlap_ids[OF i]
      distribute_overlap_ids[OF assms] distribute_overlap_end[OF assms]
      distribute_overlap_start[OF assms] ex
    by simp
qed

theorem distribute_overlap_midpoint_witness:
  "sseg_end (distribute_overlap
       [\<lparr>rec_id = ''rec'', sseg_start = 0, sseg_end = 2, spkr_id = ''spkrA''\<rparr>,
        \<lparr>rec_id = ''rec'', sseg_start = 1, sseg_end = 3, spkr_id = ''spkrB''\<rparr>] ! 0) = 3 / 2
   \<and> sseg_start (distribute_overlap
       [\<lparr>rec_id = ''rec'', sseg_start = 0, sseg_end = 2, spkr_id = ''spkrA''\<rparr>,
        \<lparr>rec_id = ''rec'', sseg_start = 1, sseg_end = 3, spkr_id = ''spkrB''\<rparr>] ! Suc 0) = 3 / 2"
  using distribute_overlap_midpoint[of 0
       "[\<lparr>rec_id = ''rec'', sseg_start = 0, sseg_end = 2, spkr_id = ''spkrA''\<rparr>,
        \<lparr>rec_id = ''rec'', sseg_start = 1, sseg_end = 3, spkr_id = ''spkrB''\<rparr>]"]
  by simp

lemma distribute_overlap_last_end:
  "i < length xs \<Longrightarrow> \<not> Suc i < length xs \<Longrightarrow>
   sseg_end (distribute_overlap xs ! i) = sseg_end (xs ! i)"
proof (induction xs arbitrary: i rule: distribute_overlap.induct)
  case (3 t1 t2 ts)
  then obtain j where j: "i = Suc j" by (cases i) auto
  with "3.prems" have p: "j < length (t2 # ts)" "\<not> Suc j < length (t2 # ts)" by simp_all
  show ?case
  proof (cases "sseg_start t2 < sseg_end t1")
    case True
    from "3.IH"(1)[OF True refl, of j] p j True show ?thesis
      by (cases j) (simp_all add: Let_def)
  next
    case False
    from "3.IH"(2)[OF False, of j] p j False show ?thesis by simp
  qed
qed simp_all

lemma distribute_overlap_first_start:
  "xs \<noteq> [] \<Longrightarrow> sseg_start (distribute_overlap xs ! 0) = sseg_start (xs ! 0)"
  using distribute_overlap_hd_start[of xs] distribute_overlap_nonempty[of xs]
  by (simp add: hd_conv_nth)

lemma well_nested_nth:
  assumes "well_nested xs"
  shows "i < length xs \<Longrightarrow> sseg_start (xs ! i) \<le> sseg_end (xs ! i)"
    and "Suc i < length xs \<Longrightarrow> sseg_start (xs ! i) \<le> sseg_start (xs ! Suc i)"
    and "Suc i < length xs \<Longrightarrow> sseg_end (xs ! i) \<le> sseg_end (xs ! Suc i)"
  using assms
  by (auto simp: well_nested_def in_order_def successively_conv_nth list_all_length)

lemma distribute_overlap_not_inverted:
  assumes wn: "well_nested xs" and i: "i < length xs"
  shows "sseg_start (distribute_overlap xs ! i) \<le> sseg_end (distribute_overlap xs ! i)"
proof -
  note n = well_nested_nth[OF wn]
  have e: "sseg_start (xs ! i) \<le> sseg_end (distribute_overlap xs ! i) \<and>
           (0 < i \<longrightarrow> sseg_start (xs ! i) + sseg_end (xs ! (i - 1))
                      \<le> 2 * sseg_end (distribute_overlap xs ! i))"
  proof (cases "Suc i < length xs")
    case True
    from n(1)[OF i] n(2)[OF True] n(3)[OF True] n(1)[of "Suc i"] True
    have a: "sseg_start (xs ! i) \<le> sseg_end (distribute_overlap xs ! i)"
      by (simp add: distribute_overlap_end[OF True])
    have b: "sseg_start (xs ! i) + sseg_end (xs ! (i - 1))
                      \<le> 2 * sseg_end (distribute_overlap xs ! i)" if "0 < i"
    proof -
      from that obtain j where j: "i = Suc j" by (cases i) auto
      with i have "Suc j < length xs" by simp
      from n(3)[OF this] j have le: "sseg_end (xs ! (i - 1)) \<le> sseg_end (xs ! i)" by simp
      from le n(1)[OF i] n(2)[OF True] n(3)[OF True]
      show ?thesis by (simp add: distribute_overlap_end[OF True])
    qed
    from a b show ?thesis by blast
  next
    case False
    have a: "sseg_end (distribute_overlap xs ! i) = sseg_end (xs ! i)"
      by (rule distribute_overlap_last_end[OF i False])
    have b: "sseg_start (xs ! i) + sseg_end (xs ! (i - 1)) \<le> 2 * sseg_end (xs ! i)" if "0 < i"
    proof -
      from that obtain j where j: "i = Suc j" by (cases i) auto
      with i have "Suc j < length xs" by simp
      from n(3)[OF this] j have le: "sseg_end (xs ! (i - 1)) \<le> sseg_end (xs ! i)" by simp
      from le n(1)[OF i] show ?thesis by simp
    qed
    from a b n(1)[OF i] show ?thesis by simp
  qed
  show ?thesis
  proof (cases i)
    case 0
    with i have "xs \<noteq> []" by auto
    from distribute_overlap_first_start[OF this] e 0 show ?thesis by simp
  next
    case (Suc j)
    with i have sj: "Suc j < length xs" by simp
    from e Suc distribute_overlap_start[OF sj] show ?thesis
      by (auto split: if_splits)
  qed
qed

lemma merge_head:
  "well_nested (t # ts) \<Longrightarrow>
   merge_ssegs_same_speaker (t # ts) \<noteq> [] \<and>
   sseg_start (hd (merge_ssegs_same_speaker (t # ts))) = sseg_start t \<and>
   sseg_end t \<le> sseg_end (hd (merge_ssegs_same_speaker (t # ts)))"
proof (induction ts arbitrary: t)
  case Nil
  then show ?case by simp
next
  case (Cons t2 ts)
  let ?m = "t\<lparr>sseg_start := min (sseg_start t) (sseg_start t2),
              sseg_end := max (sseg_end t) (sseg_end t2)\<rparr>"
  show ?case
  proof (cases "spkr_id t = spkr_id t2")
    case True
    from Cons.prems have wn: "well_nested (?m # ts)"
      by (cases ts) (auto simp: well_nested_def in_order_def)
    from Cons.IH[OF wn] True Cons.prems show ?thesis
      by (auto simp: well_nested_def in_order_def)
  next
    case False
    then show ?thesis by simp
  qed
qed

lemma merge_well_nested:
  "well_nested xs \<Longrightarrow> well_nested (merge_ssegs_same_speaker xs)"
proof (induction xs rule: merge_ssegs_same_speaker.induct)
  case (3 t1 t2 ts)
  let ?m = "t1\<lparr>sseg_start := min (sseg_start t1) (sseg_start t2),
              sseg_end := max (sseg_end t1) (sseg_end t2)\<rparr>"
  show ?case
  proof (cases "spkr_id t1 = spkr_id t2")
    case True
    from "3.prems" have wn: "well_nested (?m # ts)"
      by (cases ts) (auto simp: well_nested_def in_order_def)
    from "3.IH"(1)[OF True wn] True show ?thesis by simp
  next
    case False
    from "3.prems" have wn: "well_nested (t2 # ts)" and t1: "sseg_start t1 \<le> sseg_end t1"
      and o: "in_order t1 t2"
      by (auto simp: well_nested_def)
    from merge_head[OF wn] o "3.IH"(2)[OF False wn] t1 False show ?thesis
      by (auto simp: well_nested_def in_order_def successively_Cons)
  qed
qed simp_all

lemma sort_key_well_nested:
  assumes "successively (\<lambda>a b. sseg_end a \<le> sseg_end b) (sort_key sseg_start lol)"
    and "\<forall>t \<in> set lol. sseg_start t \<le> sseg_end t"
  shows "well_nested (sort_key sseg_start lol)"
proof -
  have "sorted (map sseg_start (sort_key sseg_start lol))" by (rule sorted_sort_key)
  then have "successively (\<lambda>a b. sseg_start a \<le> sseg_start b) (sort_key sseg_start lol)"
    by (simp add: sorted_map successively_if_sorted_wrt)
  with assms show ?thesis
    by (auto simp: well_nested_def in_order_def successively_conv_nth list_all_iff)
qed

lemma reconcile_not_inverted:
  assumes "successively (\<lambda>a b. sseg_end a \<le> sseg_end b) (sort_key sseg_start lol)"
    and "\<forall>t \<in> set lol. sseg_start t \<le> sseg_end t"
  shows "\<forall>t \<in> set (reconcile lol). sseg_start t \<le> sseg_end t"
proof -
  let ?M = "merge_ssegs_same_speaker (sort_key sseg_start lol)"
  have wn: "well_nested ?M"
    by (rule merge_well_nested[OF sort_key_well_nested[OF assms]])
  show ?thesis
    unfolding reconcile_def
    using distribute_overlap_not_inverted[OF wn]
    by (auto simp: in_set_conv_nth distribute_overlap_length)
qed

text \<open>
  C2, as amended. After reconciliation every two consecutive output turns \<open>A\<close>, \<open>B\<close>
  satisfy \<open>A.end \<le> B.start\<close>. For two arbitrary output turns this holds, and the turns
  are pairwise non-overlapping, when no output turn is inverted (\<open>start \<le> end\<close> for
  each of them). That is the case when no input sub-segment is inverted and, in the
  order of their start times, the end times of the input sub-segments do not decrease.
\<close>

theorem reconcile_adjacent_ordered:
  "(\<forall>i. Suc i < length (reconcile lol) \<longrightarrow>
        sseg_end (reconcile lol ! i) \<le> sseg_start (reconcile lol ! Suc i)) \<and>
   ((\<forall>t \<in> set (reconcile lol). sseg_start t \<le> sseg_end t) \<longrightarrow>
    (\<forall>i j. i < j \<and> j < length (reconcile lol) \<longrightarrow>
        sseg_end (reconcile lol ! i) \<le> sseg_start (reconcile lol ! j) \<and>
        disjoint_turns (reconcile lol ! i) (reconcile lol ! j))) \<and>
   (successively (\<lambda>a b. sseg_end a \<le> sseg_end b) (sort_key sseg_start lol) \<and>
    (\<forall>t \<in> set lol. sseg_start t \<le> sseg_end t) \<longrightarrow>
    (\<forall>t \<in> set (reconcile lol). sseg_start t \<le> sseg_end t) \<and>
    (\<forall>i j. i < j \<and> j < length (reconcile lol) \<longrightarrow>
        sseg_end (reconcile lol ! i) \<le> sseg_start (reconcile lol ! j) \<and>
        disjoint_turns (reconcile lol ! i) (reconcile lol ! j)))"
proof -
  let ?R = "\<lambda>a b. sseg_end a \<le> sseg_start b"
  have ch: "successively ?R (reconcile lol)"
    unfolding reconcile_def by (rule distribute_overlap_chain)
  then have adj: "\<forall>i. Suc i < length (reconcile lol) \<longrightarrow>
        sseg_end (reconcile lol ! i) \<le> sseg_start (reconcile lol ! Suc i)"
    by (simp add: successively_conv_nth)
  have pw: "\<forall>i j. i < j \<and> j < length (reconcile lol) \<longrightarrow>
        sseg_end (reconcile lol ! i) \<le> sseg_start (reconcile lol ! j) \<and>
        disjoint_turns (reconcile lol ! i) (reconcile lol ! j)"
    if ok: "\<forall>t \<in> set (reconcile lol). sseg_start t \<le> sseg_end t"
    using chain_sorted_wrt[OF ch ok] by (auto simp: sorted_wrt_iff_nth_less disjoint_turns_def)
  have inp: "(\<forall>t \<in> set (reconcile lol). sseg_start t \<le> sseg_end t) \<and>
    (\<forall>i j. i < j \<and> j < length (reconcile lol) \<longrightarrow>
        sseg_end (reconcile lol ! i) \<le> sseg_start (reconcile lol ! j) \<and>
        disjoint_turns (reconcile lol ! i) (reconcile lol ! j))"
    if a: "successively (\<lambda>a b. sseg_end a \<le> sseg_end b) (sort_key sseg_start lol)"
      and b: "\<forall>t \<in> set lol. sseg_start t \<le> sseg_end t"
    using reconcile_not_inverted[OF a b] pw by blast
  from adj pw inp show ?thesis by blast
qed

theorem reconcile_adjacent_ordered_witness:
  "reconcile [\<lparr>rec_id = ''rec'', sseg_start = 1, sseg_end = 3, spkr_id = ''rec_1''\<rparr>,
              \<lparr>rec_id = ''rec'', sseg_start = 0, sseg_end = 2, spkr_id = ''rec_0''\<rparr>,
              \<lparr>rec_id = ''rec'', sseg_start = 3, sseg_end = 4, spkr_id = ''rec_1''\<rparr>]
     = [\<lparr>rec_id = ''rec'', sseg_start = 0, sseg_end = 3 / 2, spkr_id = ''rec_0''\<rparr>,
        \<lparr>rec_id = ''rec'', sseg_start = 3 / 2, sseg_end = 4, spkr_id = ''rec_1''\<rparr>]
   \<and> disjoint_turns \<lparr>rec_id = ''rec'', sseg_start = 0, sseg_end = 3 / 2, spkr_id = ''rec_0''\<rparr>
        \<lparr>rec_id = ''rec'', sseg_start = 3 / 2, sseg_end = 4, spkr_id = ''rec_1''\<rparr>"
proof -
  let ?lol = "[\<lparr>rec_id = ''rec'', sseg_start = 1, sseg_end = 3, spkr_id = ''rec_1''\<rparr>,
              \<lparr>rec_id = ''rec'', sseg_start = 0, sseg_end = 2, spkr_id = ''rec_0''\<rparr>,
              \<lparr>rec_id = ''rec'', sseg_start = 3, sseg_end = 4, spkr_id = ''rec_1''\<rparr>]"
  have e: "reconcile ?lol
     = [\<lparr>rec_id = ''rec'', sseg_start = 0, sseg_end = 3 / 2, spkr_id = ''rec_0''\<rparr>,
        \<lparr>rec_id = ''rec'', sseg_start = 3 / 2, sseg_end = 4, spkr_id = ''rec_1''\<rparr>]"
    by (simp add: reconcile_def Let_def)
  have h1: "successively (\<lambda>a b. sseg_end a \<le> sseg_end b) (sort_key sseg_start ?lol)"
    by simp
  have h2: "\<forall>t \<in> set ?lol. sseg_start t \<le> sseg_end t" by simp
  from reconcile_adjacent_ordered[of ?lol] h1 h2
  have "\<forall>i j. i < j \<and> j < length (reconcile ?lol) \<longrightarrow>
      disjoint_turns (reconcile ?lol ! i) (reconcile ?lol ! j)"
    by blast
  from this[rule_format, of 0 "Suc 0"] e show ?thesis by simp
qed

text \<open>
  The claim as stated fails when a short turn lies inside a longer turn of another
  speaker: the midpoint rule moves the start of the short turn behind its own end, and
  the long turn then still overlaps the turn after it.
\<close>

theorem reconcile_nested_turn_counterexample:
  "label_loop demo_float ''ES2011a'' [0, 1, 0]
       [''ES2011a_0.0_10.0'', ''ES2011a_1.0_2.0'', ''ES2011a_3.0_4.0'']
     = Inr [\<lparr>rec_id = ''ES2011a'', sseg_start = 0, sseg_end = 10, spkr_id = ''ES2011a_0''\<rparr>,
            \<lparr>rec_id = ''ES2011a'', sseg_start = 1, sseg_end = 2, spkr_id = ''ES2011a_1''\<rparr>,
            \<lparr>rec_id = ''ES2011a'', sseg_start = 3, sseg_end = 4, spkr_id = ''ES2011a_0''\<rparr>]
   \<and> reconcile
        [\<lparr>rec_id = ''ES2011a'', sseg_start = 0, sseg_end = 10, spkr_id = ''ES2011a_0''\<rparr>,
         \<lparr>rec_id = ''ES2011a'', sseg_start = 1, sseg_end = 2, spkr_id = ''ES2011a_1''\<rparr>,
         \<lparr>rec_id = ''ES2011a'', sseg_start = 3, sseg_end = 4, spkr_id = ''ES2011a_0''\<rparr>]
     = [\<lparr>rec_id = ''ES2011a'', sseg_start = 0, sseg_end = 11 / 2, spkr_id = ''ES2011a_0''\<rparr>,
        \<lparr>rec_id = ''ES2011a'', sseg_start = 11 / 2, sseg_end = 2, spkr_id = ''ES2011a_1''\<rparr>,
        \<lparr>rec_id = ''ES2011a'', sseg_start = 3, sseg_end = 4, spkr_id = ''ES2011a_0''\<rparr>]
   \<and> \<not> disjoint_turns
        \<lparr>rec_id = ''ES2011a'', sseg_start = 0, sseg_end = 11 / 2, spkr_id = ''ES2011a_0''\<rparr>
        \<lparr>rec_id = ''ES2011a'', sseg_start = 3, sseg_end = 4, spkr_id = ''ES2011a_0''\<rparr>"
  by (simp add: reconcile_def Let_def disjoint_turns_def demo_float_def str_nat.simps
      digit_char_def rsplit_numeral)

subsection \<open>The affinity matrix\<close>

lemma ncols_square: "square M \<Longrightarrow> ncols M = length M"
  by (cases M) (auto simp: ncols_def square_def)

lemma mat_T_nth: "j < c \<Longrightarrow> i < length M \<Longrightarrow> mat_T c M ! j ! i = M ! i ! j"
  by (simp add: mat_T_def)

lemma length_mat_T [simp]: "length (mat_T c M) = c"
  by (simp add: mat_T_def)

lemma length_mat_T_row: "j < c \<Longrightarrow> length (mat_T c M ! j) = length M"
  by (simp add: mat_T_def)

lemma affinity_matrix_nth:
  assumes "square G" "i < length G" "j < length G"
  shows "affinity_matrix G ! i ! j = 0.5 * (G ! i ! j + G ! j ! i)"
proof -
  have li: "length (G ! i) = length G" using assms by (simp add: square_def)
  show ?thesis
    using assms li
    by (simp add: affinity_matrix_def ncols_square mat_T_nth length_mat_T_row)
qed

lemma affinity_matrix_shape:
  assumes "square G"
  shows "square (affinity_matrix G)"
  using assms
  by (auto simp: square_def affinity_matrix_def ncols_square[OF assms] set_zip length_mat_T_row)

lemma perform_sc_affinity:
  assumes "kneighbors_graph L X (n_neighbors P) (include_self P) = Inr G"
    and "perform_sc L P self X g = (w, Inr (A, labels), g')"
  shows "A = affinity_matrix G"
  using assms by (auto simp: perform_sc_def Let_def split: prod.splits sum.splits)

text \<open>
  C4. For every embedding set \<open>X\<close> for which \<open>kneighbors_graph\<close> returns the directed
  nearest-neighbour adjacency \<open>G\<close> (a square matrix), the affinity matrix \<open>perform_sc\<close>
  stores is \<open>0.5 * (G + G\<^sup>T)\<close>: entry \<open>(i, j)\<close> is half the sum of \<open>G\<^sub>i\<^sub>j\<close> and
  \<open>G\<^sub>j\<^sub>i\<close>. Consequently it is symmetric, and since the entries of a connectivity
  matrix are 0 or 1, no entry exceeds 1.
\<close>

theorem perform_sc_affinity_symmetric_bounded:
  assumes "kneighbors_graph L X (n_neighbors P) (include_self P) = Inr G"
    and "square G" and "i < length G" and "j < length G"
  shows "(\<forall>w A labels g'. perform_sc L P self X g = (w, Inr (A, labels), g')
            \<longrightarrow> A = affinity_matrix G) \<and>
         square (affinity_matrix G) \<and> length (affinity_matrix G) = length G \<and>
         affinity_matrix G ! i ! j = 0.5 * (G ! i ! j + G ! j ! i) \<and>
         affinity_matrix G ! i ! j = affinity_matrix G ! j ! i \<and>
         ((\<forall>row \<in> set G. \<forall>x \<in> set row. x = 0 \<or> x = 1) \<longrightarrow>
            0 \<le> affinity_matrix G ! i ! j \<and> affinity_matrix G ! i ! j \<le> 1)"
proof -
  have len: "length (affinity_matrix G) = length G"
    using assms(2) by (simp add: affinity_matrix_def ncols_square)
  have ij: "affinity_matrix G ! i ! j = 0.5 * (G ! i ! j + G ! j ! i)"
    by (rule affinity_matrix_nth[OF assms(2-4)])
  have ji: "affinity_matrix G ! j ! i = 0.5 * (G ! j ! i + G ! i ! j)"
    by (rule affinity_matrix_nth[OF assms(2) assms(4) assms(3)])
  have bound: "0 \<le> affinity_matrix G ! i ! j \<and> affinity_matrix G ! i ! j \<le> 1"
    if b: "\<forall>row \<in> set G. \<forall>x \<in> set row. x = 0 \<or> x = 1"
  proof -
    have li: "length (G ! i) = length G" and lj: "length (G ! j) = length G"
      using assms by (simp_all add: square_def)
    have "G ! i \<in> set G" "G ! j \<in> set G" using assms by simp_all
    moreover have "G ! i ! j \<in> set (G ! i)" "G ! j ! i \<in> set (G ! j)"
      using assms li lj by simp_all
    ultimately have "G ! i ! j = 0 \<or> G ! i ! j = 1" "G ! j ! i = 0 \<or> G ! j ! i = 1"
      using b by blast+
    then show ?thesis unfolding ij by auto
  qed
  have stored: "\<forall>w A labels g'. perform_sc L P self X g = (w, Inr (A, labels), g')
            \<longrightarrow> A = affinity_matrix G"
    using perform_sc_affinity[OF assms(1)] by blast
  have sym: "affinity_matrix G ! i ! j = affinity_matrix G ! j ! i"
    using ij ji by simp
  from bound have bound': "(\<forall>row \<in> set G. \<forall>x \<in> set row. x = 0 \<or> x = 1) \<longrightarrow>
            0 \<le> affinity_matrix G ! i ! j \<and> affinity_matrix G ! i ! j \<le> 1"
    by blast
  show ?thesis
    by (intro conjI) (fact stored affinity_matrix_shape[OF assms(2)] len ij sym bound')+
qed

lemma demo_perform_sc:
  "perform_sc demo_libs demo_params
     \<lparr>n_clusters = 2, assign_labels = ''kmeans'', random_state = Some 1234,
      affinity = ''nearest_neighbors''\<rparr> [[0], [1], [3]] 0
   = ([], Inr ([[0, 1, 0], [1, 0, 1 / 2], [0, 1 / 2, 0]], [0, 0, 1]), 1)"
  by code_simp

theorem perform_sc_affinity_symmetric_bounded_witness:
  "perform_sc demo_libs demo_params
     \<lparr>n_clusters = 2, assign_labels = ''kmeans'', random_state = Some 1234,
      affinity = ''nearest_neighbors''\<rparr> [[0], [1], [3]] 0
   = ([], Inr ([[0, 1, 0], [1, 0, 1 / 2], [0, 1 / 2, 0]], [0, 0, 1]), 1) \<and>
   [[0, 1, 0], [1, 0, 1 / 2], [0, 1 / 2, 0]] = affinity_matrix [[0, 1, 0], [1, 0, 0], [0, 1, 0]] \<and>
   affinity_matrix [[0, 1, 0], [1, 0, 0], [0, 1, 0]] ! 1 ! 2 = 1 / 2 \<and>
   affinity_matrix [[0, 1, 0], [1, 0, 0], [0, 1, 0]] ! 2 ! 1 = 1 / 2 \<and>
   affinity_matrix [[0, 1, 0], [1, 0, 0], [0, 1, 0]] ! 1 ! 2 \<le> 1"
proof -
  have k: "kneighbors_graph demo_libs [[0], [1], [3]] (n_neighbors demo_params)
             (include_self demo_params) = Inr [[0, 1, 0], [1, 0, 0], [0, 1, 0]]"
    by (simp add: demo_libs_def demo_params_def)
  have sq: "square [[0, 1, 0], [1, 0, 0], [0, 1, 0]]" by (simp add: square_def)
  from perform_sc_affinity_symmetric_bounded[OF k sq, of 1 2
      "\<lparr>n_clusters = 2, assign_labels = ''kmeans'', random_state = Some 1234,
        affinity = ''nearest_neighbors''\<rparr>" 0] demo_perform_sc
  show ?thesis by simp
qed

subsection \<open>The spectral embedding\<close>

lemma rev_map_upt: "rev (map f [0..<k]) = map (\<lambda>c. f (k - 1 - c)) [0..<k]"
  by (rule nth_equalityI) (auto simp: rev_nth)

lemma tl_map_upt: "drop (Suc 0) (map f [0..<Suc n]) = map (\<lambda>c. f (Suc c)) [0..<n]"
proof -
  have "drop (Suc 0) (map f [0..<Suc n]) = map f [Suc 0..<Suc n]"
    by (simp only: drop_map drop_upt) simp
  also have "[Suc 0..<Suc n] = map Suc [0..<n]" by (simp only: map_Suc_upt)
  finally show ?thesis by (simp add: comp_def)
qed

lemma py_slice_from_rev_all:
  "0 \<le> k \<Longrightarrow> length xs = nat k \<Longrightarrow> py_slice_from_rev k xs = rev xs"
  by (cases "k = 0") (auto simp: py_slice_from_rev_def Let_def min_def)

lemma py_slice_all: "0 \<le> k \<Longrightarrow> length xs = nat k \<Longrightarrow> py_slice 0 k xs = xs"
  by (simp add: py_slice_def py_bound_def)

lemma py_slice_tail:
  "0 \<le> n \<Longrightarrow> length xs = Suc (nat n) \<Longrightarrow> py_slice 1 (n + 1) xs = drop (Suc 0) xs"
  by (simp add: py_slice_def py_bound_def nat_add_distrib)

lemma mat_T_cols: "mat_T c M = map (eigvec_col M) [0..<c]"
  by (simp add: mat_T_def eigvec_col_def)

lemma ncols_rows: "M \<noteq> [] \<Longrightarrow> \<forall>row \<in> set M. length row = k \<Longrightarrow> ncols M = k"
  by (cases M) (auto simp: ncols_def)

lemma embedding_rows:
  assumes n: "0 \<le> n"
    and rows: "\<forall>row \<in> set dm. length row = nat (if drop_first then n + 1 else n)"
    and ne: "dm \<noteq> []"
  shows "(if drop_first
          then py_slice 1 (n + 1)
                 (deterministic_vector_sign_flip
                    ((if nl then divide_rows
                          (py_slice_from_rev (n + 1) (mat_T (ncols dm) dm)) dd
                      else py_slice_from_rev (n + 1) (mat_T (ncols dm) dm))))
          else py_slice 0 n
                 (deterministic_vector_sign_flip
                    ((if nl then divide_rows
                          (py_slice_from_rev n (mat_T (ncols dm) dm)) dd
                      else py_slice_from_rev n (mat_T (ncols dm) dm)))))
         = map (\<lambda>c. sign_flip_row (scaled nl dd (eigvec_col dm (nat n - 1 - c)))) [0..<nat n]"
proof (cases drop_first)
  case True
  let ?k = "n + 1"
  have nc: "ncols dm = Suc (nat n)" using ncols_rows[OF ne rows] True n by (simp add: nat_add_distrib)
  have k: "0 \<le> ?k" "nat ?k = Suc (nat n)" using n by (simp_all add: nat_add_distrib)
  have e0: "py_slice_from_rev ?k (mat_T (ncols dm) dm)
            = map (\<lambda>c. eigvec_col dm (nat n - c)) [0..<Suc (nat n)]"
    unfolding nc using py_slice_from_rev_all[OF k(1), of "mat_T (Suc (nat n)) dm"] k(2)
    by (simp only: length_mat_T mat_T_cols rev_map_upt) simp
  have "deterministic_vector_sign_flip
          (if nl then divide_rows (py_slice_from_rev ?k (mat_T (ncols dm) dm)) dd
           else py_slice_from_rev ?k (mat_T (ncols dm) dm))
        = map (\<lambda>c. sign_flip_row (scaled nl dd (eigvec_col dm (nat n - c)))) [0..<Suc (nat n)]"
    unfolding e0 by (simp add: deterministic_vector_sign_flip_def divide_rows_def scaled_def)
  then show ?thesis
    using True py_slice_tail[OF n, of
      "map (\<lambda>c. sign_flip_row (scaled nl dd (eigvec_col dm (nat n - c)))) [0..<Suc (nat n)]"]
    by (simp only: if_True length_map length_upt tl_map_upt) simp
next
  case False
  have nc: "ncols dm = nat n" using ncols_rows[OF ne rows] False by simp
  have e0: "py_slice_from_rev n (mat_T (ncols dm) dm)
            = map (\<lambda>c. eigvec_col dm (nat n - 1 - c)) [0..<nat n]"
    unfolding nc using py_slice_from_rev_all[OF n, of "mat_T (nat n) dm"]
    by (simp only: length_mat_T mat_T_cols rev_map_upt) simp
  have "deterministic_vector_sign_flip
          (if nl then divide_rows (py_slice_from_rev n (mat_T (ncols dm) dm)) dd
           else py_slice_from_rev n (mat_T (ncols dm) dm))
        = map (\<lambda>c. sign_flip_row (scaled nl dd (eigvec_col dm (nat n - 1 - c)))) [0..<nat n]"
    unfolding e0 by (simp add: deterministic_vector_sign_flip_def divide_rows_def scaled_def)
  then show ?thesis
    using False py_slice_all[OF n, of
      "map (\<lambda>c. sign_flip_row (scaled nl dd (eigvec_col dm (nat n - 1 - c)))) [0..<nat n]"]
    by simp
qed

lemma spectral_embedding_sb_result:
  assumes lap: "csgraph_laplacian L adjacency nl = Inr (lap0, dd)"
    and eig: "eigsh L (map (map (\<lambda>x. x * (- 1))) (set_diag L lap0 1 nl))
                (if drop_first then n + 1 else n) = Inr (vals, dm)"
    and n: "0 \<le> n"
    and rows: "\<forall>row \<in> set dm. length row = nat (if drop_first then n + 1 else n)"
  shows "snd (spectral_embedding_sb L adjacency n nl drop_first) =
           Inr (mat_T (length dm)
                  (map (\<lambda>c. sign_flip_row (scaled nl dd (eigvec_col dm (nat n - 1 - c))))
                     [0..<nat n]))"
proof (cases "dm = []")
  case True
  then show ?thesis using lap eig
    by (simp add: spectral_embedding_sb_def Let_def mat_T_def)
next
  case False
  from embedding_rows[OF n rows False, of nl dd] lap eig show ?thesis
    by (cases drop_first) (simp_all add: spectral_embedding_sb_def Let_def)
qed

lemma length_sign_flip_row [simp]: "length (sign_flip_row v) = length v"
  by (simp add: sign_flip_row_def)

lemma sign_flip_row_nth:
  "i < length v \<Longrightarrow> sign_flip_row v ! i = (if largest_magnitude v < 0 then - (v ! i) else v ! i)"
  by (simp add: sign_flip_row_def)

lemma length_eigvec_col [simp]: "length (eigvec_col dm c) = length dm"
  by (simp add: eigvec_col_def)

lemma length_scaled:
  "(nl \<Longrightarrow> length dd = length v) \<Longrightarrow> length (scaled nl dd v) = length v"
  by (simp add: scaled_def)

lemma scaled_nth:
  "i < length v \<Longrightarrow> (nl \<Longrightarrow> length dd = length v) \<Longrightarrow>
   scaled nl dd v ! i = (if nl then v ! i / dd ! i else v ! i)"
  by (simp add: scaled_def)




text \<open>
  C7. With the normalised Laplacian every extracted eigenvector is divided entry by
  entry by the vector \<open>dd\<close> the Laplacian routine returned, and the sign is chosen on
  the divided vector: the entry for node \<open>i\<close> is \<open>v\<^sub>i / dd\<^sub>i\<close>, negated when the
  largest-magnitude entry of the divided vector is negative.
\<close>

theorem spectral_embedding_sb_divides_before_flip:
  assumes "csgraph_laplacian L adjacency True = Inr (lap0, dd)"
    and "eigsh L (map (map (\<lambda>x. x * (- 1))) (set_diag L lap0 1 True))
           (if drop_first then n + 1 else n) = Inr (vals, dm)"
    and "0 \<le> n"
    and "\<forall>row \<in> set dm. length row = nat (if drop_first then n + 1 else n)"
    and "length dd = length dm"
    and "i < length dm" and "c < nat n"
  shows "\<exists>emb. snd (spectral_embedding_sb L adjacency n True drop_first) = Inr emb \<and>
           emb ! i ! c =
             (if largest_magnitude (map2 (/) (eigvec_col dm (nat n - 1 - c)) dd) < 0
              then - (eigvec_col dm (nat n - 1 - c) ! i / dd ! i)
              else eigvec_col dm (nat n - 1 - c) ! i / dd ! i)"
proof -
  let ?v = "\<lambda>c. eigvec_col dm (nat n - 1 - c)"
  let ?rows = "map (\<lambda>c. sign_flip_row (scaled True dd (?v c))) [0..<nat n]"
  have r: "snd (spectral_embedding_sb L adjacency n True drop_first) = Inr (mat_T (length dm) ?rows)"
    by (rule spectral_embedding_sb_result[OF assms(1) assms(2) assms(3) assms(4)])
  have "mat_T (length dm) ?rows ! i ! c = sign_flip_row (scaled True dd (?v c)) ! i"
    using assms(6,7) by (simp add: mat_T_def)
  also have "\<dots> = (if largest_magnitude (map2 (/) (?v c) dd) < 0
              then - (?v c ! i / dd ! i) else ?v c ! i / dd ! i)"
    using assms(5,6) by (simp add: sign_flip_row_nth scaled_def)
  finally show ?thesis using r by blast
qed

lemma demo_embedding_norm:
  "spectral_embedding_sb demo_libs [[0, 1, 0], [1, 0, 1 / 2], [0, 1 / 2, 0]] 2 True False
     = ([], Inr [[6, 1], [- (3 / 2), 1], [- (1 / 4), - 1]])"
  by code_simp

theorem spectral_embedding_sb_divides_before_flip_witness:
  "snd (spectral_embedding_sb demo_libs [[0, 1, 0], [1, 0, 1 / 2], [0, 1 / 2, 0]] 2 True False)
     = Inr [[6, 1], [- (3 / 2), 1], [- (1 / 4), - 1]] \<and>
   largest_magnitude (map2 (/) (eigvec_col [[1, - 6], [2, 3], [- 4, 1]] 1) [1, 2, 4]) = - 6 \<and>
   [[6, 1], [- (3 / 2), 1], [- (1 / 4), - 1]] ! 1 ! 0
     = - (eigvec_col [[1, - 6], [2, 3], [- 4, 1]] 1 ! 1 / [1, 2, 4] ! 1)"
proof -
  have lap: "csgraph_laplacian demo_libs [[0, 1, 0], [1, 0, 1 / 2], [0, 1 / 2, 0]] True
      = Inr ([[1, - 1, 0], [- 1, 1, - 1 / 2], [0, - 1 / 2, 1]], [1, 2, 4])"
    by (simp add: demo_libs_def)
  have eig: "eigsh demo_libs (map (map (\<lambda>x. x * (- 1)))
        (set_diag demo_libs [[1, - 1, 0], [- 1, 1, - 1 / 2], [0, - 1 / 2, 1]] 1 True))
        (if False then 2 + 1 else 2) = Inr ([0, 1], [[1, - 6], [2, 3], [- 4, 1]])"
    by (simp add: demo_libs_def numeral_2_eq_2)
  have lm: "largest_magnitude (map2 (/) (eigvec_col [[1, - 6], [2, 3], [- 4, 1]] 1) [1, 2, 4]) = - 6"
    by (simp add: eigvec_col_def Let_def)
  from spectral_embedding_sb_divides_before_flip[OF lap eig, of 1 0] demo_embedding_norm lm
  show ?thesis by simp
qed




subsection \<open>Errors of the clustering\<close>

text \<open>Every error of the three functions is one a library call raised.\<close>

lemma spectral_embedding_sb_error:
  "snd (spectral_embedding_sb L A n nl drop_first) = Inl e \<Longrightarrow> \<exists>x. e = LibraryError x"
  by (auto simp: spectral_embedding_sb_def Let_def split: sum.splits prod.splits)

lemma spectral_clustering_sb_error:
  "fst (snd (spectral_clustering_sb L A k rs n_init g)) = Inl e \<Longrightarrow> \<exists>x. e = LibraryError x"
proof -
  assume a: "fst (snd (spectral_clustering_sb L A k rs n_init g)) = Inl e"
  obtain w r where wr: "spectral_embedding_sb L A k True False = (w, r)" by force
  show ?thesis
  proof (cases r)
    case (Inl e')
    with a wr have "e = e'" by (simp add: spectral_clustering_sb_def)
    moreover from wr Inl have "snd (spectral_embedding_sb L A k True False) = Inl e'" by simp
    ultimately show ?thesis using spectral_embedding_sb_error by blast
  next
    case (Inr m)
    with a wr show ?thesis
      by (auto simp: spectral_clustering_sb_def Let_def split: option.splits prod.splits sum.splits)
  qed
qed

lemma perform_sc_error:
  "fst (snd (perform_sc L P self X g)) = Inl e \<Longrightarrow> \<exists>x. e = LibraryError x"
proof -
  assume a: "fst (snd (perform_sc L P self X g)) = Inl e"
  show ?thesis
  proof (cases "kneighbors_graph L X (n_neighbors P) (include_self P)")
    case (Inl x)
    with a show ?thesis by (auto simp: perform_sc_def)
  next
    case (Inr G)
    obtain w r g' where c: "spectral_clustering_sb L (affinity_matrix G) (n_clusters self) None 10 g
        = (w, r, g')" by (metis prod_cases3)
    with a Inr have "r = Inl e" by (cases r) (simp_all add: perform_sc_def)
    with c have "fst (snd (spectral_clustering_sb L (affinity_matrix G) (n_clusters self) None 10 g))
        = Inl e" by simp
    then show ?thesis by (rule spectral_clustering_sb_error)
  qed
qed

lemma spectral_embedding_sb_eigsh_error:
  assumes "csgraph_laplacian L A nl = Inr (lap0, dd)"
    and "eigsh L (map (map (\<lambda>x. x * (- 1))) (set_diag L lap0 1 nl))
           (if drop_first then n + 1 else n) = Inl e"
  shows "snd (spectral_embedding_sb L A n nl drop_first) = Inl (LibraryError e)"
  using assms by (simp add: spectral_embedding_sb_def Let_def)

text \<open>
  C5, as amended. \<open>spectral_clustering_sb\<close> does not compare the number of clusters
  \<open>k\<close> with the number of points \<open>N\<close> and never fails with \<open>ConfigurationError\<close>. It
  first asks \<open>eigsh\<close> for \<open>k\<close> eigenvectors: when \<open>eigsh\<close> raises, that error is the
  result, \<open>k_means\<close> is not called and the generator of the process is left as it was.
  An error of the spectral embedding is returned as it is, and once the embedding is
  computed the outcome is the one of \<open>k_means\<close> on it, its labels or the error it
  raised, for every \<open>k\<close>.
\<close>

theorem spectral_clustering_sb_no_k_check:
  "fst (snd (spectral_clustering_sb L A k rs n_init g)) \<noteq> Inl ConfigurationError \<and>
   (\<forall>lap0 dd e.
      csgraph_laplacian L A True = Inr (lap0, dd) \<and>
      eigsh L (map (map (\<lambda>x. x * (- 1))) (set_diag L lap0 1 True)) k = Inl e \<longrightarrow>
      fst (snd (spectral_clustering_sb L A k rs n_init g)) = Inl (LibraryError e) \<and>
      snd (snd (spectral_clustering_sb L A k rs n_init g)) = g) \<and>
   (\<forall>e. snd (spectral_embedding_sb L A k True False) = Inl e \<longrightarrow>
      fst (snd (spectral_clustering_sb L A k None n_init g)) = Inl e) \<and>
   (\<forall>m. snd (spectral_embedding_sb L A k True False) = Inr m \<longrightarrow>
      fst (snd (spectral_clustering_sb L A k None n_init g))
        = (case fst (k_means L m k g n_init) of
             Inl e \<Rightarrow> Inl (LibraryError e) | Inr labels \<Rightarrow> Inr labels))"
proof -
  have 1: "fst (snd (spectral_clustering_sb L A k rs n_init g)) \<noteq> Inl ConfigurationError"
    using spectral_clustering_sb_error[of L A k rs n_init g ConfigurationError] by auto
  obtain w r where wr: "spectral_embedding_sb L A k True False = (w, r)" by force
  have 0: "fst (snd (spectral_clustering_sb L A k rs n_init g)) = Inl (LibraryError e) \<and>
      snd (snd (spectral_clustering_sb L A k rs n_init g)) = g"
    if "csgraph_laplacian L A True = Inr (lap0, dd)"
      and "eigsh L (map (map (\<lambda>x. x * (- 1))) (set_diag L lap0 1 True)) k = Inl e"
    for lap0 dd e
  proof -
    from spectral_embedding_sb_eigsh_error[of L A True lap0 dd False k e] that wr
    have "r = Inl (LibraryError e)" by simp
    with wr show ?thesis by (simp add: spectral_clustering_sb_def)
  qed
  have 2: "\<forall>e. snd (spectral_embedding_sb L A k True False) = Inl e \<longrightarrow>
      fst (snd (spectral_clustering_sb L A k None n_init g)) = Inl e"
    using wr by (auto simp: spectral_clustering_sb_def)
  have 3: "\<forall>m. snd (spectral_embedding_sb L A k True False) = Inr m \<longrightarrow>
      fst (snd (spectral_clustering_sb L A k None n_init g))
        = (case fst (k_means L m k g n_init) of
             Inl e \<Rightarrow> Inl (LibraryError e) | Inr labels \<Rightarrow> Inr labels)"
    using wr by (auto simp: spectral_clustering_sb_def Let_def split: prod.splits)
  from 0 1 2 3 show ?thesis by blast
qed

lemma demo_clustering:
  "spectral_clustering_sb demo_libs [[0, 1, 0], [1, 0, 1 / 2], [0, 1 / 2, 0]] 2 None 10 0
     = ([], Inr [0, 0, 1], 1)"
  by code_simp

lemma demo_embedding_for_clustering:
  "spectral_embedding_sb demo_libs [[0, 1, 0], [1, 0, 1 / 2], [0, 1 / 2, 0]] 2 True False
     = ([], Inr [[6, 1], [- (3 / 2), 1], [- (1 / 4), - 1]])"
  by code_simp

theorem spectral_clustering_sb_no_k_check_witness:
  "snd (spectral_embedding_sb demo_libs [[0, 1, 0], [1, 0, 1 / 2], [0, 1 / 2, 0]] 2 True False)
     = Inr [[6, 1], [- (3 / 2), 1], [- (1 / 4), - 1]] \<and>
   fst (snd (spectral_clustering_sb demo_libs [[0, 1, 0], [1, 0, 1 / 2], [0, 1 / 2, 0]] 2 None 10 0))
     = (case fst (k_means demo_libs [[6, 1], [- (3 / 2), 1], [- (1 / 4), - 1]] 2 0 10) of
          Inl e \<Rightarrow> Inl (LibraryError e) | Inr labels \<Rightarrow> Inr labels) \<and>
   fst (snd (spectral_clustering_sb demo_libs [[0, 1, 0], [1, 0, 1 / 2], [0, 1 / 2, 0]] 2 None 10 0))
     = Inr [0, 0, 1] \<and>
   eigsh demo_libs (map (map (\<lambda>x. x * (- 1)))
       (set_diag demo_libs [[1, - 1, 0], [- 1, 1, - 1 / 2], [0, - 1 / 2, 1]] 1 True)) 3
     = Inl ''TypeError'' \<and>
   fst (snd (spectral_clustering_sb demo_libs [[0, 1, 0], [1, 0, 1 / 2], [0, 1 / 2, 0]] 3 None 10 0))
     = Inl (LibraryError ''TypeError'') \<and>
   snd (snd (spectral_clustering_sb demo_libs [[0, 1, 0], [1, 0, 1 / 2], [0, 1 / 2, 0]] 3 None 10 0))
     = 0"
proof -
  have lap: "csgraph_laplacian demo_libs [[0, 1, 0], [1, 0, 1 / 2], [0, 1 / 2, 0]] True
      = Inr ([[1, - 1, 0], [- 1, 1, - 1 / 2], [0, - 1 / 2, 1]], [1, 2, 4])"
    by (simp add: demo_libs_def)
  have eig: "eigsh demo_libs (map (map (\<lambda>x. x * (- 1)))
       (set_diag demo_libs [[1, - 1, 0], [- 1, 1, - 1 / 2], [0, - 1 / 2, 1]] 1 True)) 3
     = Inl ''TypeError''"
    by (simp add: demo_libs_def)
  from spectral_clustering_sb_no_k_check[of demo_libs
      "[[0, 1, 0], [1, 0, 1 / 2], [0, 1 / 2, 0]]" 2 None 10 0]
    spectral_clustering_sb_no_k_check[of demo_libs
      "[[0, 1, 0], [1, 0, 1 / 2], [0, 1 / 2, 0]]" 3 None 10 0]
    demo_embedding_for_clustering demo_clustering lap eig
  show ?thesis by simp
qed

text \<open>
  The claim as stated fails twice. With as many clusters as points (\<open>k = N = 3\<close>) the
  assignment does not succeed: \<open>eigsh\<close> refuses \<open>k \<ge> N\<close> on the sparse affinity matrix
  and its \<open>TypeError\<close> is the result. With more clusters than points (\<open>k = 4\<close>) the
  result is the same \<open>TypeError\<close>, raised before \<open>k_means\<close> is reached, and not a
  \<open>ConfigurationError\<close>.
\<close>

theorem spectral_clustering_sb_k_above_n_counterexample:
  "length [[0::real, 1, 0], [1, 0, 1 / 2], [0, 1 / 2, 0]] = 3 \<and>
   spectral_clustering_sb demo_libs [[0, 1, 0], [1, 0, 1 / 2], [0, 1 / 2, 0]] 3 None 10 0
     = ([], Inl (LibraryError ''TypeError''), 0) \<and>
   spectral_clustering_sb demo_libs [[0, 1, 0], [1, 0, 1 / 2], [0, 1 / 2, 0]] 4 None 10 0
     = ([], Inl (LibraryError ''TypeError''), 0) \<and>
   fst (snd (spectral_clustering_sb demo_libs [[0, 1, 0], [1, 0, 1 / 2], [0, 1 / 2, 0]] 4 None 10 0))
     \<noteq> Inl ConfigurationError"
proof -
  have 3: "spectral_clustering_sb demo_libs [[0, 1, 0], [1, 0, 1 / 2], [0, 1 / 2, 0]] 3 None 10 0
     = ([], Inl (LibraryError ''TypeError''), 0)"
    by code_simp
  have 4: "spectral_clustering_sb demo_libs [[0, 1, 0], [1, 0, 1 / 2], [0, 1 / 2, 0]] 4 None 10 0
     = ([], Inl (LibraryError ''TypeError''), 0)"
    by code_simp
  from 3 4 show ?thesis by simp
qed

text \<open>
  C6, as amended. \<open>perform_sc\<close> checks neither the number of neighbours nor the number
  of segments and never fails with \<open>ConfigurationError\<close>: when \<open>kneighbors_graph\<close>
  raises, that error is the result, whatever the arguments are; when it returns a graph,
  building the affinity matrix raises nothing, and an error of \<open>perform_sc\<close> is one of
  the spectral clustering that follows.
\<close>

theorem perform_sc_no_argument_check:
  "fst (snd (perform_sc L P self X g)) \<noteq> Inl ConfigurationError \<and>
   (\<forall>e. kneighbors_graph L X (n_neighbors P) (include_self P) = Inl e \<longrightarrow>
      perform_sc L P self X g = ([], Inl (LibraryError e), g)) \<and>
   (\<forall>G e. kneighbors_graph L X (n_neighbors P) (include_self P) = Inr G \<and>
      fst (snd (perform_sc L P self X g)) = Inl e \<longrightarrow>
      fst (snd (spectral_clustering_sb L (affinity_matrix G) (n_clusters self) None 10 g)) = Inl e)"
proof -
  have 1: "fst (snd (perform_sc L P self X g)) \<noteq> Inl ConfigurationError"
    using perform_sc_error[of L P self X g ConfigurationError] by auto
  have 2: "\<forall>e. kneighbors_graph L X (n_neighbors P) (include_self P) = Inl e \<longrightarrow>
      perform_sc L P self X g = ([], Inl (LibraryError e), g)"
    by (simp add: perform_sc_def)
  have 3: "\<forall>G e. kneighbors_graph L X (n_neighbors P) (include_self P) = Inr G \<and>
      fst (snd (perform_sc L P self X g)) = Inl e \<longrightarrow>
      fst (snd (spectral_clustering_sb L (affinity_matrix G) (n_clusters self) None 10 g)) = Inl e"
    by (auto simp: perform_sc_def Let_def split: prod.splits sum.splits)
  from 1 2 3 show ?thesis by blast
qed

theorem perform_sc_no_argument_check_witness:
  "kneighbors_graph demo_libs [[0], [1], [3]] (n_neighbors (demo_params\<lparr>n_neighbors := - 1\<rparr>))
       (include_self (demo_params\<lparr>n_neighbors := - 1\<rparr>)) = Inl ''ValueError'' \<and>
   perform_sc demo_libs (demo_params\<lparr>n_neighbors := - 1\<rparr>)
     \<lparr>n_clusters = 2, assign_labels = ''kmeans'', random_state = Some 1234,
      affinity = ''nearest_neighbors''\<rparr> [[0], [1], [3]] 0
     = ([], Inl (LibraryError ''ValueError''), 0)"
proof -
  have k: "kneighbors_graph demo_libs [[0], [1], [3]] (n_neighbors (demo_params\<lparr>n_neighbors := - 1\<rparr>))
       (include_self (demo_params\<lparr>n_neighbors := - 1\<rparr>)) = Inl ''ValueError''"
    by (simp add: demo_libs_def demo_params_def)
  from perform_sc_no_argument_check[of demo_libs "demo_params\<lparr>n_neighbors := - 1\<rparr>"
      "\<lparr>n_clusters = 2, assign_labels = ''kmeans'', random_state = Some 1234,
        affinity = ''nearest_neighbors''\<rparr>" "[[0], [1], [3]]" 0] k
  show ?thesis by simp
qed

text \<open>
  With \<open>n_neighbors = 0\<close> the error is the \<open>ValueError\<close> of \<open>kneighbors_graph\<close>, not a
  \<open>ConfigurationError\<close>.
\<close>

theorem perform_sc_no_neighbours_counterexample:
  "fst (snd (perform_sc demo_libs (demo_params\<lparr>n_neighbors := 0\<rparr>)
     \<lparr>n_clusters = 2, assign_labels = ''kmeans'', random_state = Some 1234,
      affinity = ''nearest_neighbors''\<rparr> [[0], [1], [3]] 0))
     = Inl (LibraryError ''ValueError'') \<and>
   fst (snd (perform_sc demo_libs (demo_params\<lparr>n_neighbors := 0\<rparr>)
     \<lparr>n_clusters = 2, assign_labels = ''kmeans'', random_state = Some 1234,
      affinity = ''nearest_neighbors''\<rparr> [[0], [1], [3]] 0))
     \<noteq> Inl ConfigurationError"
  by (simp add: perform_sc_def demo_libs_def demo_params_def)

subsection \<open>The seed\<close>

lemma perform_sc_random_state_unused:
  "perform_sc L P \<lparr>n_clusters = k, assign_labels = a, random_state = r1, affinity = b\<rparr> X g
     = perform_sc L P \<lparr>n_clusters = k, assign_labels = a, random_state = r2, affinity = b\<rparr> X g"
  by (cases "kneighbors_graph L X (n_neighbors P) (include_self P)")
     (simp_all add: perform_sc_def)

lemma perform_sc_seed_unused:
  "perform_sc L (P\<lparr>seed := s\<rparr>) self X g = perform_sc L P self X g"
  by (simp add: perform_sc_def)

text \<open>
  C1. The seed \<open>do_spec_clustering\<close> stores in the \<open>Spec_Cluster\<close> object does not
  reach \<open>k_means\<close>: the result is the same for every seed, and \<open>k_means\<close> draws from
  the generator of the process, which it leaves advanced. Had the seed been passed on,
  the labels would not depend on the generator of the process. In the small
  environment two successive runs on the same recording, with the same seed, number
  of clusters and neighbour count, start from the generator states 0 and 1; both find
  the same two turns and give them opposite speaker ids.
\<close>

theorem do_spec_clustering_seed_unused:
  "do_spec_clustering L (P\<lparr>seed := s\<rparr>) to_float diary_obj_eval rec k g
     = do_spec_clustering L P to_float diary_obj_eval rec k g \<and>
   fst (snd (spectral_clustering_sb L A k (Some s) n_init g))
     = fst (snd (spectral_clustering_sb L A k (Some s) n_init g2)) \<and>
   do_spec_clustering demo_libs demo_params demo_float demo_obj ''ES2011a'' 2 0
     = ([],
        Inr [\<lparr>rec_id = ''ES2011a'', sseg_start = 0, sseg_end = 3, spkr_id = ''ES2011a_0''\<rparr>,
             \<lparr>rec_id = ''ES2011a'', sseg_start = 3, sseg_end = 4, spkr_id = ''ES2011a_1''\<rparr>],
        1) \<and>
   do_spec_clustering demo_libs demo_params demo_float demo_obj ''ES2011a'' 2 1
     = ([],
        Inr [\<lparr>rec_id = ''ES2011a'', sseg_start = 0, sseg_end = 3, spkr_id = ''ES2011a_1''\<rparr>,
             \<lparr>rec_id = ''ES2011a'', sseg_start = 3, sseg_end = 4, spkr_id = ''ES2011a_0''\<rparr>],
        2)"
proof -
  have 1: "do_spec_clustering L (P\<lparr>seed := s\<rparr>) to_float diary_obj_eval rec k g
     = do_spec_clustering L P to_float diary_obj_eval rec k g"
    by (simp add: do_spec_clustering_def perform_sc_seed_unused
          perform_sc_random_state_unused[of L P k "''kmeans''" "Some s" "''nearest_neighbors''" _ _ "Some (seed P)"])
  have 2: "fst (snd (spectral_clustering_sb L A k (Some s) n_init g))
     = fst (snd (spectral_clustering_sb L A k (Some s) n_init g2))"
    by (simp add: spectral_clustering_sb_def Let_def split: prod.splits sum.splits)
  have 3: "do_spec_clustering demo_libs demo_params demo_float demo_obj ''ES2011a'' 2 0
     = ([],
        Inr [\<lparr>rec_id = ''ES2011a'', sseg_start = 0, sseg_end = 3, spkr_id = ''ES2011a_0''\<rparr>,
             \<lparr>rec_id = ''ES2011a'', sseg_start = 3, sseg_end = 4, spkr_id = ''ES2011a_1''\<rparr>],
        1)"
    by code_simp
  have 4: "do_spec_clustering demo_libs demo_params demo_float demo_obj ''ES2011a'' 2 1
     = ([],
        Inr [\<lparr>rec_id = ''ES2011a'', sseg_start = 0, sseg_end = 3, spkr_id = ''ES2011a_1''\<rparr>,
             \<lparr>rec_id = ''ES2011a'', sseg_start = 3, sseg_end = 4, spkr_id = ''ES2011a_0''\<rparr>],
        2)"
    by code_simp
  from 1 2 3 4 show ?thesis by blast
qed

end
